theory Spec2Isabelle
  imports Complex_Main "HOL-Library.Char_ord" "HOL-Library.List_Lexorder" "HOL-Library.AList"
begin

section \<open>Parsed JSON values\<close>

text \<open>
  The values \<^verbatim>\<open>json.load\<close> returns. A Python \<^verbatim>\<open>str\<close> is modelled by the bytes of its
  UTF-8 encoding (a HOL \<^typ>\<open>string\<close>): the literals of the script are ASCII, so
  \<^verbatim>\<open>startswith\<close> and the slice after the prefix act on bytes as they act on code points, and
  the byte-wise lexicographic order is the code point order \<^verbatim>\<open>sorted\<close> uses. A \<^verbatim>\<open>dict\<close> is
  an association list in insertion order; the keys of a dict are distinct, which the
  theorems that need it assume of the list. A \<^verbatim>\<open>float\<close> is the rational it denotes, or one
  of the three special values the parser accepts.
\<close>

datatype pyfloat = Finite rat | PosInf | NegInf | NaN

datatype json =
    JNull
  | JBool bool
  | JInt int
  | JFloat pyfloat
  | JStr string
  | JArr "json list"
  | JObj "(string \<times> json) list"

section \<open>The reference collector\<close>

definition REF_KEY :: string where
  "REF_KEY = ''$ref''"

definition DEFS_PREFIX :: string where
  "DEFS_PREFIX = ''#/definitions/''"

text \<open>\<^verbatim>\<open>val.startswith(p)\<close>\<close>

definition startswith :: "string \<Rightarrow> string \<Rightarrow> bool" where
  "startswith s p = (take (length p) s = p)"

text \<open>
  \<^verbatim>\<open>key == "$ref" and isinstance(val, str) and val.startswith("#/definitions/")\<close>, the
  condition of line 27.
\<close>

fun is_local_ref :: "string \<Rightarrow> json \<Rightarrow> bool" where
  "is_local_ref key (JStr val) = (key = REF_KEY \<and> startswith val DEFS_PREFIX)"
| "is_local_ref key _ = False"

text \<open>\<^verbatim>\<open>val[len("#/definitions/"):]\<close>, taken only where \<open>is_local_ref\<close> holds.\<close>

fun ref_target :: "json \<Rightarrow> string" where
  "ref_target (JStr val) = drop (length DEFS_PREFIX) val"
| "ref_target _ = []"

text \<open>
  \<^verbatim>\<open>collect_refs(obj, refs)\<close>: the accumulator set is passed in and returned. The two
  \<^verbatim>\<open>for\<close> loops are \<open>collect_refs_items\<close> (over \<^verbatim>\<open>obj.items()\<close>) and \<open>collect_refs_list\<close>
  (over the elements of a list). A parsed document is a finite tree, so the recursion ends;
  the interpreter's bound on the depth of the call stack is not part of the model.
\<close>

fun collect_refs :: "json \<Rightarrow> string set \<Rightarrow> string set"
  and collect_refs_items :: "(string \<times> json) list \<Rightarrow> string set \<Rightarrow> string set"
  and collect_refs_list :: "json list \<Rightarrow> string set \<Rightarrow> string set" where
  "collect_refs (JObj kvs) refs = collect_refs_items kvs refs"
| "collect_refs (JArr xs) refs = collect_refs_list xs refs"
| "collect_refs JNull refs = refs"
| "collect_refs (JBool b) refs = refs"
| "collect_refs (JInt i) refs = refs"
| "collect_refs (JFloat f) refs = refs"
| "collect_refs (JStr s) refs = refs"
| "collect_refs_items [] refs = refs"
| "collect_refs_items (kv # kvs) refs =
     collect_refs_items kvs
       (if is_local_ref (fst kv) (snd kv) then insert (ref_target (snd kv)) refs
        else collect_refs (snd kv) refs)"
| "collect_refs_list [] refs = refs"
| "collect_refs_list (item # xs) refs = collect_refs_list xs (collect_refs item refs)"

subsection \<open>The collector as the specification words it\<close>

text \<open>
  Every mapping entry found in the transitive structure of a value: the entries of an
  object and those found in each of its values, those found in each element of an array,
  none in a scalar.
\<close>

fun all_entries :: "json \<Rightarrow> (string \<times> json) list"
  and all_entries_items :: "(string \<times> json) list \<Rightarrow> (string \<times> json) list"
  and all_entries_list :: "json list \<Rightarrow> (string \<times> json) list" where
  "all_entries (JObj kvs) = all_entries_items kvs"
| "all_entries (JArr xs) = all_entries_list xs"
| "all_entries JNull = []"
| "all_entries (JBool b) = []"
| "all_entries (JInt i) = []"
| "all_entries (JFloat f) = []"
| "all_entries (JStr s) = []"
| "all_entries_items [] = []"
| "all_entries_items (kv # kvs) = kv # all_entries (snd kv) @ all_entries_items kvs"
| "all_entries_list [] = []"
| "all_entries_list (x # xs) = all_entries x @ all_entries_list xs"

text \<open>
  The names \<open>N\<close> for which some entry has the key \<^verbatim>\<open>$ref\<close> and, as its value, the
  string made of the prefix followed by \<open>N\<close>.
\<close>

definition spec_ref_targets :: "(string \<times> json) list \<Rightarrow> string set" where
  "spec_ref_targets es = {N. (REF_KEY, JStr (DEFS_PREFIX @ N)) \<in> set es}"

section \<open>The verification driver\<close>

subsection \<open>Exceptions, files and Python's dynamic operations\<close>

text \<open>
  The exceptions \<^verbatim>\<open>main\<close> can raise. None is caught in the script, so each ends the
  process with a traceback on standard error and the exit status 1.
\<close>

datatype py_error = OSError | JSONDecodeError | AttributeError | TypeError

text \<open>
  \<^verbatim>\<open>open(path)\<close> followed by \<^verbatim>\<open>json.load(f)\<close>. The file system and the parser are library
  code: a file system says, for each path, whether the file can be opened and whether its
  text parses, and to which value.
\<close>

datatype load_result = Unreadable | Invalid | Loaded json

type_synonym file_system = "string \<Rightarrow> load_result"

definition json_load :: "file_system \<Rightarrow> string \<Rightarrow> py_error + json" where
  "json_load fs path =
     (case fs path of
        Unreadable \<Rightarrow> Inl OSError
      | Invalid \<Rightarrow> Inl JSONDecodeError
      | Loaded j \<Rightarrow> Inr j)"

text \<open>\<^verbatim>\<open>obj.get(key, default)\<close>: only a dict has the method.\<close>

fun py_get :: "json \<Rightarrow> string \<Rightarrow> json \<Rightarrow> py_error + json" where
  "py_get (JObj kvs) key dflt = Inr (case map_of kvs key of None \<Rightarrow> dflt | Some v \<Rightarrow> v)"
| "py_get _ key dflt = Inl AttributeError"

text \<open>
  \<^verbatim>\<open>len(obj)\<close>: the number of entries of a dict, of elements of a list, of code points of a
  str (the bytes of its encoding that are not continuation bytes); a TypeError otherwise.
\<close>

definition str_len :: "string \<Rightarrow> nat" where
  "str_len s = length (filter (\<lambda>c. \<not> (128 \<le> (of_char c :: nat) \<and> (of_char c :: nat) < 192)) s)"

fun py_len :: "json \<Rightarrow> py_error + nat" where
  "py_len (JObj kvs) = Inr (length kvs)"
| "py_len (JArr xs) = Inr (length xs)"
| "py_len (JStr s) = Inr (str_len s)"
| "py_len _ = Inl TypeError"

text \<open>\<^verbatim>\<open>obj.items()\<close> and \<^verbatim>\<open>obj.keys()\<close>: only a dict has them.\<close>

fun py_items :: "json \<Rightarrow> py_error + (string \<times> json) list" where
  "py_items (JObj kvs) = Inr kvs"
| "py_items _ = Inl AttributeError"

fun py_keys :: "json \<Rightarrow> py_error + string list" where
  "py_keys (JObj kvs) = Inr (map fst kvs)"
| "py_keys _ = Inl AttributeError"

text \<open>
  \<^verbatim>\<open>', '.join(targets)\<close> returns for a list of strings, for a string (its characters) and
  for a dict (its keys, strings in a parsed document), and raises a TypeError otherwise.
\<close>

fun is_str :: "json \<Rightarrow> bool" where
  "is_str (JStr s) = True"
| "is_str _ = False"

fun joinable :: "json \<Rightarrow> bool" where
  "joinable (JArr xs) = list_all is_str xs"
| "joinable (JStr s) = True"
| "joinable (JObj kvs) = True"
| "joinable _ = False"

text \<open>
  \<^verbatim>\<open>value == n\<close> for a parsed value and an int: numbers are compared by value, a bool is
  the int 0 or 1, anything else is not equal to an int.
\<close>

fun py_eq_int :: "json \<Rightarrow> int \<Rightarrow> bool" where
  "py_eq_int (JInt i) n = (i = n)"
| "py_eq_int (JBool b) n = ((if b then 1 else 0) = n)"
| "py_eq_int (JFloat (Finite r)) n = (r = of_int n)"
| "py_eq_int _ n = False"

text \<open>\<^verbatim>\<open>os.path.basename(path)\<close>: what follows the last slash.\<close>

definition basename :: "string \<Rightarrow> string" where
  "basename path = rev (takeWhile (\<lambda>c. c \<noteq> CHR ''/'') (rev path))"

subsection \<open>Output, error messages and the end of the process\<close>

text \<open>
  One constructor for each \<^verbatim>\<open>print\<close> of the script, holding the values its text is
  formatted from, and one for each message appended to \<^verbatim>\<open>errors\<close>.
\<close>

datatype err =
    DefCountIncreased int  \<comment> \<open>\<^verbatim>\<open>Def count increased by {-removed}\<close>\<close>
  | BrokenRef string  \<comment> \<open>\<^verbatim>\<open>Broken $ref: {ref}\<close>\<close>
  | OrphanedTarget string  \<comment> \<open>\<^verbatim>\<open>Orphaned target: {name}\<close>\<close>
  | CollapsedMismatch json nat  \<comment> \<open>\<^verbatim>\<open>x-netex-collapsed mismatch: annotation=.., actual=..\<close>\<close>

datatype out_line =
    Usage  \<comment> \<open>line 39\<close>
  | Title string  \<comment> \<open>line 52, the basename of the after path\<close>
  | DefCountDelta nat nat int  \<comment> \<open>line 60: before count, after count, removed\<close>
  | DefCountOnly nat  \<comment> \<open>line 64\<close>
  | CollapsedHeader nat  \<comment> \<open>line 72\<close>
  | CollapsedDef string json  \<comment> \<open>line 74: the name and the joined targets\<close>
  | BrokenHeader nat  \<comment> \<open>line 82\<close>
  | BrokenLine string  \<comment> \<open>line 85\<close>
  | OrphanedHeader nat  \<comment> \<open>line 93\<close>
  | OrphanedLine string  \<comment> \<open>line 96\<close>
  | OrphanedSkipped  \<comment> \<open>line 99\<close>
  | CollapsedCount json nat  \<comment> \<open>line 104\<close>
  | Rule  \<comment> \<open>line 111\<close>
  | Fail nat  \<comment> \<open>line 113\<close>
  | FailDetail err  \<comment> \<open>line 115\<close>
  | Pass  \<comment> \<open>line 118\<close>

datatype ending = Returned | SysExit nat | Uncaught py_error

fun exit_status :: "ending \<Rightarrow> nat" where
  "exit_status Returned = 0"
| "exit_status (SysExit n) = n"
| "exit_status (Uncaught e) = 1"

record outcome =
  printed :: "out_line list"
  ended :: ending

text \<open>
  A step of the script: the lines it printed, then either the exception that stopped it
  or its value. \<open>then_do\<close> runs a second step after a first one that did not raise.
\<close>

type_synonym 'a proc = "out_line list \<times> (py_error + 'a)"

definition done_with :: "'a \<Rightarrow> 'a proc" where
  "done_with x = ([], Inr x)"

definition lift :: "py_error + 'a \<Rightarrow> 'a proc" where
  "lift r = ([], r)"

definition print :: "out_line \<Rightarrow> unit proc" where
  "print l = ([l], Inr ())"

definition emit :: "out_line list \<times> 'a \<Rightarrow> 'a proc" where
  "emit r = (fst r, Inr (snd r))"

definition then_do :: "'a proc \<Rightarrow> ('a \<Rightarrow> 'b proc) \<Rightarrow> 'b proc" where
  "then_do m f =
     (case snd m of
        Inl e \<Rightarrow> (fst m, Inl e)
      | Inr x \<Rightarrow> (fst m @ fst (f x), snd (f x)))"

subsection \<open>The five checks\<close>

definition DEFINITIONS :: string where
  "DEFINITIONS = ''definitions''"

definition REDUCED_KEY :: string where
  "REDUCED_KEY = ''x-netex-reduced''"

definition COLLAPSED_KEY :: string where
  "COLLAPSED_KEY = ''x-netex-collapsed''"

text \<open>
  \<^verbatim>\<open>before_path = sys.argv[2] if len(sys.argv) > 2 else None\<close>, and the test
  \<^verbatim>\<open>if before_path:\<close> of lines 55 and 89, which an empty string fails as None does.
\<close>

definition before_path_of :: "string list \<Rightarrow> string option" where
  "before_path_of argv = (if length argv > 2 then Some (argv ! 2) else None)"

fun supplied :: "string option \<Rightarrow> string option" where
  "supplied None = None"
| "supplied (Some path) = (if path = [] then None else Some path)"

text \<open>Check 1, lines 59 to 62: the line printed and the error recorded for two counts.\<close>

definition count_delta :: "nat \<Rightarrow> nat \<Rightarrow> out_line list \<times> err list" where
  "count_delta before_count after_count =
     (let removed = int before_count - int after_count
      in ([DefCountDelta before_count after_count removed],
          if removed < 0 then [DefCountIncreased (- removed)] else []))"

text \<open>
  Check 1, lines 55 to 64. The value is the before document (\<^verbatim>\<open>before\<close> in the script,
  \<open>before_doc\<close> here), when a path was supplied, and the errors recorded.
\<close>

definition check1 :: "file_system \<Rightarrow> string option \<Rightarrow> nat \<Rightarrow> (json option \<times> err list) proc" where
  "check1 fs before_path after_count =
     (case supplied before_path of
        Some path \<Rightarrow>
          then_do (lift (json_load fs path)) (\<lambda>before_doc.
          then_do (lift (py_get before_doc DEFINITIONS (JObj []))) (\<lambda>before_defs.
          then_do (lift (py_len before_defs)) (\<lambda>before_count.
          then_do (emit (count_delta before_count after_count)) (\<lambda>errors.
          done_with (Some before_doc, errors)))))
      | None \<Rightarrow>
          then_do (print (DefCountOnly after_count)) (\<lambda>_. done_with (None, [])))"

text \<open>
  Check 2, lines 67 to 70: \<^verbatim>\<open>reduced_defs\<close> is a dict, filled in the order of
  \<^verbatim>\<open>after_defs.items()\<close>.
\<close>

fun reduced_step :: "string \<times> json \<Rightarrow> (string \<times> json) list \<Rightarrow> (string \<times> json) list" where
  "reduced_step (name, JObj d) reduced_defs =
     (case map_of d REDUCED_KEY of
        Some targets \<Rightarrow> AList.update name targets reduced_defs
      | None \<Rightarrow> reduced_defs)"
| "reduced_step (name, defn) reduced_defs = reduced_defs"

definition reduced_defs_of :: "(string \<times> json) list \<Rightarrow> (string \<times> json) list" where
  "reduced_defs_of after_items = fold reduced_step after_items []"

text \<open>Lines 73 and 74: the loop stops at the first targets that cannot be joined.\<close>

fun print_collapsed :: "(string \<times> json) list \<Rightarrow> unit proc" where
  "print_collapsed [] = done_with ()"
| "print_collapsed (nt # rest) =
     (if joinable (snd nt)
      then then_do (print (CollapsedDef (fst nt) (snd nt))) (\<lambda>_. print_collapsed rest)
      else lift (Inl TypeError))"

text \<open>
  Check 2, lines 67 to 74. The value is the list of the entries of \<^verbatim>\<open>after_defs\<close>, which
  is a dict when the check does not raise, and \<^verbatim>\<open>reduced_defs\<close>. The keys of a dict are
  distinct, so \<^verbatim>\<open>sorted\<close> orders the items by their names alone.
\<close>

definition check2 :: "json \<Rightarrow> ((string \<times> json) list \<times> (string \<times> json) list) proc" where
  "check2 after_defs =
     then_do (lift (py_items after_defs)) (\<lambda>after_items.
     let reduced_defs = reduced_defs_of after_items in
     then_do (print (CollapsedHeader (length reduced_defs))) (\<lambda>_.
     then_do (print_collapsed (sort_key fst reduced_defs)) (\<lambda>_.
     done_with (after_items, reduced_defs))))"

text \<open>Check 3, lines 77 to 79: the collector runs on every definition, on one accumulator.\<close>

fun all_refs_of :: "(string \<times> json) list \<Rightarrow> string set \<Rightarrow> string set" where
  "all_refs_of [] all_refs = all_refs"
| "all_refs_of (nd # rest) all_refs = all_refs_of rest (collect_refs (snd nd) all_refs)"

text \<open>Check 3, lines 81 to 86.\<close>

definition broken_of :: "(string \<times> json) list \<Rightarrow> string set \<Rightarrow> string set" where
  "broken_of after_items all_refs = all_refs - set (map fst after_items)"

definition check3 :: "(string \<times> json) list \<Rightarrow> string set \<Rightarrow> out_line list \<times> err list" where
  "check3 after_items all_refs =
     (let broken = broken_of after_items all_refs
      in (BrokenHeader (card broken) # map BrokenLine (sorted_list_of_set broken),
          map BrokenRef (sorted_list_of_set broken)))"

text \<open>Check 4, lines 91 to 97, for the keys of \<^verbatim>\<open>before_defs\<close>.\<close>

definition orphaned_of :: "string list \<Rightarrow> (string \<times> json) list \<Rightarrow> string set \<Rightarrow> string set" where
  "orphaned_of before_keys after_items all_refs =
     (let removed_names = set before_keys - set (map fst after_items)
      in removed_names \<inter> all_refs)"

definition orphan_report ::
  "string list \<Rightarrow> (string \<times> json) list \<Rightarrow> string set \<Rightarrow> out_line list \<times> err list" where
  "orphan_report before_keys after_items all_refs =
     (let orphaned = orphaned_of before_keys after_items all_refs
      in (OrphanedHeader (card orphaned) # map OrphanedLine (sorted_list_of_set orphaned),
          map OrphanedTarget (sorted_list_of_set orphaned)))"

text \<open>
  Check 4, lines 89 to 99. \<open>before_doc\<close> is the document \<^verbatim>\<open>before\<close> that Check 1 loaded,
  or None when no before path was supplied.
\<close>

definition check4 ::
  "json option \<Rightarrow> (string \<times> json) list \<Rightarrow> string set \<Rightarrow> (err list) proc" where
  "check4 before_doc after_items all_refs =
     (case before_doc of
        Some b \<Rightarrow>
          then_do (lift (py_get b DEFINITIONS (JObj []))) (\<lambda>before_defs.
          then_do (lift (py_keys before_defs)) (\<lambda>before_keys.
          emit (orphan_report before_keys after_items all_refs)))
      | None \<Rightarrow> then_do (print OrphanedSkipped) (\<lambda>_. done_with []))"

text \<open>Check 5, lines 102 to 108.\<close>

definition check5 :: "json \<Rightarrow> nat \<Rightarrow> out_line list \<times> err list" where
  "check5 collapsed_annotation actual_collapsed =
     ([CollapsedCount collapsed_annotation actual_collapsed],
      if \<not> py_eq_int collapsed_annotation (int actual_collapsed)
      then [CollapsedMismatch collapsed_annotation actual_collapsed] else [])"

subsection \<open>The whole run\<close>

text \<open>
  Lines 48 to 108, for a loaded after document: the value is the list \<^verbatim>\<open>errors\<close> as it
  stands after Check 5.
\<close>

definition run_checks :: "file_system \<Rightarrow> string \<Rightarrow> string option \<Rightarrow> json \<Rightarrow> (err list) proc" where
  "run_checks fs after_path before_path after =
     then_do (lift (py_get after DEFINITIONS (JObj []))) (\<lambda>after_defs.
     then_do (lift (py_len after_defs)) (\<lambda>after_count.
     then_do (print (Title (basename after_path))) (\<lambda>_.
     then_do (check1 fs before_path after_count) (\<lambda>c1.
     then_do (check2 after_defs) (\<lambda>c2.
     let all_refs = all_refs_of (fst c2) {} in
     then_do (emit (check3 (fst c2) all_refs)) (\<lambda>errors3.
     then_do (check4 (fst c1) (fst c2) all_refs) (\<lambda>errors4.
     then_do (lift (py_get after COLLAPSED_KEY (JInt 0))) (\<lambda>collapsed_annotation.
     then_do (emit (check5 collapsed_annotation (length (snd c2)))) (\<lambda>errors5.
     done_with (snd c1 @ errors3 @ errors4 @ errors5))))))))))"

text \<open>Lines 111 to 118.\<close>

definition summary :: "err list \<Rightarrow> out_line list \<times> ending" where
  "summary errors =
     (if errors \<noteq> []
      then (Rule # Fail (length errors) # map FailDetail errors, SysExit 1)
      else ([Rule, Pass], Returned))"

text \<open>
  \<^verbatim>\<open>main\<close>, for the file system and \<^verbatim>\<open>sys.argv\<close> (the script's name first).
\<close>

definition main :: "file_system \<Rightarrow> string list \<Rightarrow> outcome" where
  "main fs argv =
     (if length argv < 2 then \<lparr>printed = [Usage], ended = SysExit 1\<rparr>
      else
        let after_path = argv ! 1;
            before_path = before_path_of argv;
            r = then_do (lift (json_load fs after_path)) (run_checks fs after_path before_path)
        in case snd r of
             Inl e \<Rightarrow> \<lparr>printed = fst r, ended = Uncaught e\<rparr>
           | Inr errors \<Rightarrow>
               \<lparr>printed = fst r @ fst (summary errors), ended = snd (summary errors)\<rparr>)"

subsection \<open>Notions the specification uses\<close>

text \<open>A value with no \<^verbatim>\<open>$ref\<close> key anywhere in its transitive structure.\<close>

definition no_ref_key :: "json \<Rightarrow> bool" where
  "no_ref_key j = (REF_KEY \<notin> fst ` set (all_entries j))"

text \<open>A definition entry that is an object carrying the \<^verbatim>\<open>x-netex-reduced\<close> key.\<close>

fun has_reduced :: "json \<Rightarrow> bool" where
  "has_reduced (JObj d) = (REDUCED_KEY \<in> set (map fst d))"
| "has_reduced _ = False"

text \<open>What Check 2 records for an entry of the definitions mapping, if anything.\<close>

fun reduced_entry :: "string \<times> json \<Rightarrow> (string \<times> json) option" where
  "reduced_entry (name, JObj d) = map_option (Pair name) (map_of d REDUCED_KEY)"
| "reduced_entry (name, defn) = None"

text \<open>An object or an array: a value the collector recurses into.\<close>

fun is_container :: "json \<Rightarrow> bool" where
  "is_container (JObj kvs) = True"
| "is_container (JArr xs) = True"
| "is_container _ = False"

text \<open>
  The documents on which no step of the script raises. A definition entry is joinable when
  it is not an object, has no \<^verbatim>\<open>x-netex-reduced\<close> key, or has joinable targets under it. An
  after document is fit when it is an object whose \<^verbatim>\<open>definitions\<close> value (an empty object
  when absent) is an object of joinable entries; a before document, when it is an object
  whose \<^verbatim>\<open>definitions\<close> value is an object. The inputs of a run are fit when the after
  path is given and loads to a fit document and the before path, when one is supplied,
  loads to a fit document too.
\<close>

fun joinable_entry :: "json \<Rightarrow> bool" where
  "joinable_entry (JObj d) =
     (case map_of d REDUCED_KEY of Some targets \<Rightarrow> joinable targets | None \<Rightarrow> True)"
| "joinable_entry _ = True"

definition after_ok :: "json \<Rightarrow> bool" where
  "after_ok after =
     (case py_get after DEFINITIONS (JObj []) of
        Inr (JObj after_items) \<Rightarrow> list_all (\<lambda>nd. joinable_entry (snd nd)) after_items
      | _ \<Rightarrow> False)"

definition before_ok :: "json \<Rightarrow> bool" where
  "before_ok before_doc =
     (case py_get before_doc DEFINITIONS (JObj []) of
        Inr (JObj before_items) \<Rightarrow> True
      | _ \<Rightarrow> False)"

definition inputs_ok :: "file_system \<Rightarrow> string list \<Rightarrow> bool" where
  "inputs_ok fs argv =
     (2 \<le> length argv
      \<and> (case fs (argv ! 1) of Loaded after \<Rightarrow> after_ok after | _ \<Rightarrow> False)
      \<and> (case supplied (before_path_of argv) of
           None \<Rightarrow> True
         | Some path \<Rightarrow>
             (case fs path of Loaded before_doc \<Rightarrow> before_ok before_doc | _ \<Rightarrow> False)))"

section \<open>Properties of the reference collector\<close>

lemma startswith_iff: "startswith s p \<longleftrightarrow> (\<exists>t. s = p @ t)"
  unfolding startswith_def
  by (metis append_eq_conv_conj append_take_drop_id)

lemma is_local_ref_iff:
  "is_local_ref k v \<longleftrightarrow> (\<exists>N. k = REF_KEY \<and> v = JStr (DEFS_PREFIX @ N))"
  by (cases v) (auto simp: startswith_iff)

lemma ref_target_prefix [simp]: "ref_target (JStr (DEFS_PREFIX @ N)) = N"
  by simp

lemma spec_ref_targets_Nil [simp]: "spec_ref_targets [] = {}"
  by (simp add: spec_ref_targets_def)

lemma spec_ref_targets_append [simp]:
  "spec_ref_targets (xs @ ys) = spec_ref_targets xs \<union> spec_ref_targets ys"
  by (auto simp: spec_ref_targets_def)

lemma spec_ref_targets_Cons:
  "spec_ref_targets (kv # es) =
     (if is_local_ref (fst kv) (snd kv) then {ref_target (snd kv)} else {}) \<union> spec_ref_targets es"
  by (cases kv) (auto simp: spec_ref_targets_def is_local_ref_iff)

lemma is_local_ref_no_entries: "is_local_ref k v \<Longrightarrow> all_entries v = []"
  by (cases v) auto

lemma collect_refs_acc:
  "collect_refs j refs = refs \<union> spec_ref_targets (all_entries j)"
  "collect_refs_items kvs refs = refs \<union> spec_ref_targets (all_entries_items kvs)"
  "collect_refs_list xs refs = refs \<union> spec_ref_targets (all_entries_list xs)"
proof (induction j refs and kvs refs and xs refs
    rule: collect_refs_collect_refs_items_collect_refs_list.induct)
  case (9 kv kvs refs)
  show ?case
  proof (cases "is_local_ref (fst kv) (snd kv)")
    case True
    then show ?thesis
      using 9 by (auto simp: spec_ref_targets_Cons is_local_ref_no_entries)
  next
    case False
    then show ?thesis
      using 9 by (auto simp: spec_ref_targets_Cons)
  qed
qed (simp_all add: Un_assoc)

text \<open>
  Claim C6. For every JSON value, the collector started on the empty accumulator returns
  the set of the names \<open>N\<close> such that some mapping entry of the value's transitive
  structure has the key \<^verbatim>\<open>$ref\<close> and the string value \<^verbatim>\<open>#/definitions/\<close> followed by \<open>N\<close>;
  started on any accumulator it adds exactly these names; and the name captured from a
  recognised string is what follows the prefix.
\<close>

theorem collect_refs_spec:
  "collect_refs j {} = {N. (REF_KEY, JStr (DEFS_PREFIX @ N)) \<in> set (all_entries j)}
   \<and> collect_refs j refs = refs \<union> {N. (REF_KEY, JStr (DEFS_PREFIX @ N)) \<in> set (all_entries j)}
   \<and> ref_target (JStr (DEFS_PREFIX @ N)) = N"
  using collect_refs_acc(1) [of j] by (simp add: spec_ref_targets_def)

lemma all_entries_items_append:
  "all_entries_items (xs @ ys) = all_entries_items xs @ all_entries_items ys"
  by (induction xs) simp_all

text \<open>
  Claim C7, as amended. An entry whose key is \<^verbatim>\<open>$ref\<close> and whose value is not a string
  starting with \<^verbatim>\<open>#/definitions/\<close> is not taken as a reference itself, but the collector does
  recurse into its value: the entry adds to the accumulator exactly the reference targets
  found inside the value. These are none when the value is a scalar (a string that does
  not start with the prefix, a number, a boolean, null), and they are the targets the
  collector finds in the value when it is an object or an array.
\<close>

theorem ref_key_not_recognised:
  "(\<not> is_local_ref REF_KEY v \<longrightarrow>
      collect_refs (JObj (pre @ (REF_KEY, v) # post)) refs
        = collect_refs (JObj (pre @ post)) refs \<union> collect_refs v {})
   \<and> (\<not> is_container v \<longrightarrow> collect_refs v {} = {})"
proof -
  have a: "collect_refs (JObj (pre @ (REF_KEY, v) # post)) refs
        = collect_refs (JObj (pre @ post)) refs \<union> collect_refs v {}"
    if "\<not> is_local_ref REF_KEY v"
    using that
    by (auto simp: collect_refs_acc(1) all_entries_items_append spec_ref_targets_Cons)
  have b: "collect_refs v {} = {}" if "\<not> is_container v"
    using that by (cases v) simp_all
  from a b show ?thesis by blast
qed

theorem ref_key_not_recognised_witness:
  "collect_refs
     (JObj [(''a'', JNull), (REF_KEY, JStr ''other.json#/definitions/X''), (''b'', JNull)]) {}
     = collect_refs (JObj [(''a'', JNull), (''b'', JNull)]) {}
   \<and> collect_refs (JObj [(REF_KEY, JArr [JObj [(''$ref'', JStr ''#/definitions/X'')]])]) {}
     = collect_refs (JObj []) {}
       \<union> collect_refs (JArr [JObj [(''$ref'', JStr ''#/definitions/X'')]]) {}"
proof -
  have n1: "\<not> is_local_ref REF_KEY (JStr ''other.json#/definitions/X'')"
    by (simp add: startswith_def DEFS_PREFIX_def)
  have c1: "\<not> is_container (JStr ''other.json#/definitions/X'')" by simp
  have n2: "\<not> is_local_ref REF_KEY (JArr [JObj [(''$ref'', JStr ''#/definitions/X'')]])"
    by simp
  from ref_key_not_recognised
         [of "JStr ''other.json#/definitions/X''" "[(''a'', JNull)]" "[(''b'', JNull)]" "{}"]
       n1 c1
  have "collect_refs
          (JObj [(''a'', JNull), (REF_KEY, JStr ''other.json#/definitions/X''), (''b'', JNull)]) {}
     = collect_refs (JObj [(''a'', JNull), (''b'', JNull)]) {}"
    by (metis Un_empty_right append_Cons append_Nil)
  moreover from ref_key_not_recognised
         [of "JArr [JObj [(''$ref'', JStr ''#/definitions/X'')]]" "[]" "[]" "{}"] n2
  have "collect_refs (JObj [(REF_KEY, JArr [JObj [(''$ref'', JStr ''#/definitions/X'')]])]) {}
     = collect_refs (JObj []) {}
       \<union> collect_refs (JArr [JObj [(''$ref'', JStr ''#/definitions/X'')]]) {}"
    by (metis append_Nil)
  ultimately show ?thesis by (rule conjI)
qed

text \<open>
  Claim C7 as stated fails: under a \<^verbatim>\<open>$ref\<close> key whose value is an object, hence not a
  recognised reference, the collector recurses (the \<^verbatim>\<open>else\<close> branch of line 29) and adds
  the target \<^verbatim>\<open>X\<close> found inside that value.
\<close>

theorem ref_key_not_recognised_counterexample:
  "\<not> is_local_ref REF_KEY (JObj [(''$ref'', JStr ''#/definitions/X'')])
   \<and> collect_refs (JObj [(''$ref'', JObj [(''$ref'', JStr ''#/definitions/X'')])]) {} = {''X''}"
  by (simp add: REF_KEY_def DEFS_PREFIX_def startswith_def)

section \<open>Properties of the checks\<close>

subsection \<open>Steps of the script\<close>

lemma then_do_simps:
  "then_do (lift (Inr x)) f = f x"
  "then_do (lift (Inl e)) f = ([], Inl e)"
  "then_do (done_with x) f = f x"
  "then_do (print l) g = (l # fst (g ()), snd (g ()))"
  "then_do (emit r) f = (fst r @ fst (f (snd r)), snd (f (snd r)))"
  "then_do (out, Inr x) f = (out @ fst (f x), snd (f x))"
  "then_do (out, Inl e) f = (out, Inl e)"
  by (simp_all add: then_do_def lift_def done_with_def print_def emit_def)

subsection \<open>The reference-target set\<close>

lemma spec_ref_targets_subset:
  "spec_ref_targets es \<subseteq> (\<lambda>kv. ref_target (snd kv)) ` set es"
  by (force simp: spec_ref_targets_def)

lemma finite_spec_ref_targets: "finite (spec_ref_targets es)"
  by (rule finite_subset [OF spec_ref_targets_subset]) simp

lemma finite_collect_refs: "finite refs \<Longrightarrow> finite (collect_refs j refs)"
  by (simp add: collect_refs_acc(1) [of j refs] finite_spec_ref_targets)

lemma all_refs_of_acc:
  "all_refs_of items refs = refs \<union> (\<Union>nd \<in> set items. collect_refs (snd nd) {})"
proof (induction items arbitrary: refs)
  case Nil
  show ?case by simp
next
  case (Cons nd items)
  have "collect_refs (snd nd) refs = refs \<union> collect_refs (snd nd) {}"
    using collect_refs_acc(1) [of "snd nd" refs] collect_refs_acc(1) [of "snd nd" "{}"] by simp
  then show ?case using Cons.IH [of "collect_refs (snd nd) refs"] by auto
qed

lemma finite_all_refs_of: "finite refs \<Longrightarrow> finite (all_refs_of items refs)"
  by (induction items arbitrary: refs) (simp_all add: finite_collect_refs)

lemma no_ref_key_collect: "no_ref_key j \<Longrightarrow> collect_refs j {} = {}"
  unfolding no_ref_key_def collect_refs_acc(1) [of j "{}"] spec_ref_targets_def
  by force

text \<open>
  Claim C2. Check 3 runs on the entries of the after definitions mapping. Its reference
  set is the union of what the collector returns for the value of every entry, its broken
  set is that union minus the keys of the mapping, and the errors it records are one
  \<open>BrokenRef\<close> for each name of the broken set, in sorted order and without repetition.
  When no value of the mapping holds a \<^verbatim>\<open>$ref\<close> key anywhere, the check reports zero broken
  references and records nothing.
\<close>

theorem check3_broken_refs:
  "all_refs_of after_items {} = (\<Union>nd \<in> set after_items. collect_refs (snd nd) {})
   \<and> broken_of after_items (all_refs_of after_items {})
       = (\<Union>nd \<in> set after_items. collect_refs (snd nd) {}) - fst ` set after_items
   \<and> snd (check3 after_items (all_refs_of after_items {}))
       = map BrokenRef (sorted_list_of_set (broken_of after_items (all_refs_of after_items {})))
   \<and> set (sorted_list_of_set (broken_of after_items (all_refs_of after_items {})))
       = broken_of after_items (all_refs_of after_items {})
   \<and> distinct (sorted_list_of_set (broken_of after_items (all_refs_of after_items {})))
   \<and> length (snd (check3 after_items (all_refs_of after_items {})))
       = card (broken_of after_items (all_refs_of after_items {}))
   \<and> (list_all (\<lambda>nd. no_ref_key (snd nd)) after_items \<longrightarrow>
        check3 after_items (all_refs_of after_items {}) = ([BrokenHeader 0], []))"
proof -
  let ?R = "all_refs_of after_items {}"
  let ?B = "broken_of after_items ?R"
  have R: "?R = (\<Union>nd \<in> set after_items. collect_refs (snd nd) {})"
    by (simp add: all_refs_of_acc)
  have fin: "finite ?B"
    by (simp add: broken_of_def finite_all_refs_of)
  have B: "?B = (\<Union>nd \<in> set after_items. collect_refs (snd nd) {}) - fst ` set after_items"
    unfolding broken_of_def R by simp
  have none: "check3 after_items ?R = ([BrokenHeader 0], [])"
    if "list_all (\<lambda>nd. no_ref_key (snd nd)) after_items"
  proof -
    from that have "?R = {}"
      unfolding R by (auto simp: list_all_iff no_ref_key_collect)
    then show ?thesis by (simp add: check3_def broken_of_def)
  qed
  show ?thesis
    using R B fin none by (simp add: check3_def Let_def)
qed

theorem check3_broken_refs_witness:
  "check3 [(''Stop'', JObj [(''type'', JStr ''object'')]), (''Line'', JArr [JNull])]
          (all_refs_of [(''Stop'', JObj [(''type'', JStr ''object'')]), (''Line'', JArr [JNull])] {})
     = ([BrokenHeader 0], [])"
proof -
  have "list_all (\<lambda>nd. no_ref_key (snd nd))
          [(''Stop'', JObj [(''type'', JStr ''object'')]), (''Line'', JArr [JNull])]"
    by (simp add: no_ref_key_def REF_KEY_def)
  with check3_broken_refs
         [of "[(''Stop'', JObj [(''type'', JStr ''object'')]), (''Line'', JArr [JNull])]"]
  show ?thesis by blast
qed

subsection \<open>The collapsed definitions\<close>

lemma update_fresh: "k \<notin> fst ` set al \<Longrightarrow> AList.update k v al = al @ [(k, v)]"
  by (induction al) auto

lemma reduced_step_cases:
  "reduced_step nd rd =
     (if has_reduced (snd nd)
      then AList.update (fst nd) (case snd nd of JObj d \<Rightarrow> the (map_of d REDUCED_KEY)) rd
      else rd)"
proof (cases nd)
  case (Pair name defn)
  show ?thesis
  proof (cases defn)
    case (JObj d)
    show ?thesis
    proof (cases "map_of d REDUCED_KEY")
      case None
      then have "REDUCED_KEY \<notin> fst ` set d" by (simp add: map_of_eq_None_iff)
      with None show ?thesis by (simp add: Pair JObj)
    next
      case (Some targets)
      then have "map_of d REDUCED_KEY \<noteq> None" by simp
      then have "REDUCED_KEY \<in> fst ` set d" by (simp add: map_of_eq_None_iff)
      with Some show ?thesis by (simp add: Pair JObj)
    qed
  qed (simp_all add: Pair)
qed

lemma dom_reduced_step: "fst ` set (reduced_step nd rd) \<subseteq> insert (fst nd) (fst ` set rd)"
  by (auto simp: reduced_step_cases dom_update)

lemma length_fold_reduced_step:
  "distinct (map fst items) \<Longrightarrow> fst ` set rd \<inter> fst ` set items = {} \<Longrightarrow>
   length (fold reduced_step items rd)
     = length rd + length (filter (\<lambda>nd. has_reduced (snd nd)) items)"
proof (induction items arbitrary: rd)
  case Nil
  show ?case by simp
next
  case (Cons nd items)
  have new: "fst nd \<notin> fst ` set rd" using Cons.prems(2) by auto
  have len: "length (reduced_step nd rd) = length rd + (if has_reduced (snd nd) then 1 else 0)"
    using new by (simp add: reduced_step_cases update_fresh)
  have "fst nd \<notin> fst ` set items" "fst ` set rd \<inter> fst ` set items = {}"
    using Cons.prems by auto
  then have "insert (fst nd) (fst ` set rd) \<inter> fst ` set items = {}"
    by simp
  then have disj: "fst ` set (reduced_step nd rd) \<inter> fst ` set items = {}"
    using dom_reduced_step [of nd rd] by (metis Int_mono subset_empty subset_refl)
  have "distinct (map fst items)" using Cons.prems(1) by simp
  from Cons.IH [OF this disj] len show ?case by simp
qed

lemma length_reduced_defs_of:
  "distinct (map fst items) \<Longrightarrow>
   length (reduced_defs_of items) = length (filter (\<lambda>nd. has_reduced (snd nd)) items)"
  using length_fold_reduced_step [of items "[]"] by (simp add: reduced_defs_of_def)

text \<open>
  Claim C3. The after definitions mapping is a dict, so its keys are distinct. The count
  Check 2 hands to Check 5, the length of \<^verbatim>\<open>reduced_defs\<close>, is the number of entries that are
  objects carrying the \<^verbatim>\<open>x-netex-reduced\<close> key. The annotation Check 5 reads is the value
  under \<^verbatim>\<open>x-netex-collapsed\<close>, or the integer 0 when the key is absent. Check 5 records the
  single error \<open>CollapsedMismatch\<close> when the annotation is not equal to that count, and
  nothing when it is: for an integer annotation \<open>i\<close>, nothing is recorded exactly when
  \<open>i\<close> is the count. Equality is Python's \<^verbatim>\<open>==\<close> (\<open>py_eq_int\<close>).
\<close>

theorem check5_count_consistency:
  assumes "distinct (map fst after_items)"
  shows "length (reduced_defs_of after_items)
           = length (filter (\<lambda>nd. has_reduced (snd nd)) after_items)
     \<and> py_get (JObj after_fields) COLLAPSED_KEY (JInt 0)
           = Inr (case map_of after_fields COLLAPSED_KEY of None \<Rightarrow> JInt 0 | Some v \<Rightarrow> v)
     \<and> snd (check5 ann (length (reduced_defs_of after_items)))
           = (if py_eq_int ann (int (length (filter (\<lambda>nd. has_reduced (snd nd)) after_items)))
              then []
              else [CollapsedMismatch ann
                      (length (filter (\<lambda>nd. has_reduced (snd nd)) after_items))])
     \<and> (snd (check5 (JInt i) (length (reduced_defs_of after_items))) = []
           \<longleftrightarrow> i = int (length (filter (\<lambda>nd. has_reduced (snd nd)) after_items)))
     \<and> length (snd (check5 ann (length (reduced_defs_of after_items)))) \<le> 1"
  using length_reduced_defs_of [OF assms] by (simp add: check5_def)

theorem check5_count_consistency_witness:
  "snd (check5 (JInt 1)
         (length (reduced_defs_of
            [(''X'', JObj []), (''Y'', JObj [(''x-netex-reduced'', JArr [JStr ''Z''])])]))) = []"
proof -
  have d: "distinct (map fst
             [(''X'', JObj []), (''Y'', JObj [(''x-netex-reduced'', JArr [JStr ''Z''])])])"
    by simp
  have n: "(1::int) = int (length (filter (\<lambda>nd. has_reduced (snd nd))
             [(''X'', JObj []), (''Y'', JObj [(''x-netex-reduced'', JArr [JStr ''Z''])])]))"
    by (simp add: REDUCED_KEY_def)
  from check5_count_consistency [OF d, of _ _ 1] n show ?thesis by blast
qed

subsection \<open>The count delta and the orphaned targets\<close>

text \<open>
  Claim C5. When a before path is supplied and the before document loads, Check 1 takes
  the length of its definitions mapping as \<open>before_count\<close>, prints the two counts with
  \<open>removed = before_count - after_count\<close>, and records the single error
  \<open>DefCountIncreased (- removed)\<close> exactly when \<open>removed < 0\<close>. When no before path is
  supplied it prints the after count and records nothing.
\<close>

theorem check1_count_delta:
  "(supplied before_path = Some path \<and> fs path = Loaded before_doc
      \<and> py_get before_doc DEFINITIONS (JObj []) = Inr before_defs
      \<and> py_len before_defs = Inr before_count \<longrightarrow>
      check1 fs before_path after_count
        = ([DefCountDelta before_count after_count (int before_count - int after_count)],
           Inr (Some before_doc,
                if int before_count - int after_count < 0
                then [DefCountIncreased (- (int before_count - int after_count))] else [])))
   \<and> (supplied before_path = None \<longrightarrow>
      check1 fs before_path after_count = ([DefCountOnly after_count], Inr (None, [])))"
  by (simp add: check1_def json_load_def then_do_simps count_delta_def Let_def done_with_def)

theorem check1_count_delta_witness:
  "check1 (\<lambda>p. Loaded (JObj [(''definitions'', JObj [(''A'', JObj [])])]))
          (Some ''before.json'') 2
     = ([DefCountDelta 1 2 (- 1)],
        Inr (Some (JObj [(''definitions'', JObj [(''A'', JObj [])])]), [DefCountIncreased 1]))
   \<and> check1 (\<lambda>p. Loaded (JObj [(''definitions'', JObj [(''A'', JObj [])])]))
          (Some ''before.json'') 1
     = ([DefCountDelta 1 1 0],
        Inr (Some (JObj [(''definitions'', JObj [(''A'', JObj [])])]), []))
   \<and> check1 (\<lambda>p. Unreadable) None 2 = ([DefCountOnly 2], Inr (None, []))"
  using check1_count_delta
          [of "Some ''before.json''" "''before.json''"
              "\<lambda>p. Loaded (JObj [(''definitions'', JObj [(''A'', JObj [])])])"
              "JObj [(''definitions'', JObj [(''A'', JObj [])])]"
              "JObj [(''A'', JObj [])]" 1 2]
        check1_count_delta
          [of "Some ''before.json''" "''before.json''"
              "\<lambda>p. Loaded (JObj [(''definitions'', JObj [(''A'', JObj [])])])"
              "JObj [(''definitions'', JObj [(''A'', JObj [])])]"
              "JObj [(''A'', JObj [])]" 1 1]
        check1_count_delta [of None _ "\<lambda>p. Unreadable" _ _ _ 2]
  by (simp add: DEFINITIONS_def)

text \<open>
  Claim C4. When a before document was supplied, with an object as its definitions
  mapping, the orphan set of Check 4 is the keys of the before mapping, minus the keys of
  the after mapping, intersected with the reference-target set; the check prints their
  number and records one \<open>OrphanedTarget\<close> for each orphaned name, in sorted order and
  without repetition. When no before document was supplied, Check 1 hands None to Check 4,
  which prints that it is skipped and records nothing.
\<close>

theorem check4_orphaned:
  "(py_get before_doc DEFINITIONS (JObj []) = Inr (JObj before_items) \<longrightarrow>
      orphaned_of (map fst before_items) after_items all_refs
        = (fst ` set before_items - fst ` set after_items) \<inter> all_refs
      \<and> check4 (Some before_doc) after_items all_refs
        = (OrphanedHeader (card (orphaned_of (map fst before_items) after_items all_refs))
             # map OrphanedLine
                 (sorted_list_of_set (orphaned_of (map fst before_items) after_items all_refs)),
           Inr (map OrphanedTarget
                  (sorted_list_of_set (orphaned_of (map fst before_items) after_items all_refs))))
      \<and> set (sorted_list_of_set (orphaned_of (map fst before_items) after_items all_refs))
        = orphaned_of (map fst before_items) after_items all_refs
      \<and> distinct (sorted_list_of_set (orphaned_of (map fst before_items) after_items all_refs)))
   \<and> check4 None after_items all_refs = ([OrphanedSkipped], Inr [])
   \<and> (supplied before_path = None \<longrightarrow> snd (check1 fs before_path after_count) = Inr (None, []))"
proof -
  have fin: "finite (orphaned_of (map fst before_items) after_items all_refs)"
    by (simp add: orphaned_of_def)
  show ?thesis
    using fin
    by (simp add: check4_def check1_def then_do_simps orphan_report_def done_with_def
        emit_def orphaned_of_def Let_def)
qed

theorem check4_orphaned_witness:
  "check4 (Some (JObj [(''definitions'', JObj [(''A'', JObj []), (''B'', JObj [])])]))
          [(''A'', JObj [(''items'', JObj [(''$ref'', JStr ''#/definitions/B'')])])] {''B''}
     = ([OrphanedHeader 1, OrphanedLine ''B''], Inr [OrphanedTarget ''B''])"
proof -
  have o: "orphaned_of (map fst [(''A'', JObj []), (''B'', JObj [])])
             [(''A'', JObj [(''items'', JObj [(''$ref'', JStr ''#/definitions/B'')])])] {''B''}
           = {''B''}"
    by (auto simp: orphaned_of_def)
  have g: "py_get (JObj [(''definitions'', JObj [(''A'', JObj []), (''B'', JObj [])])])
             DEFINITIONS (JObj []) = Inr (JObj [(''A'', JObj []), (''B'', JObj [])])"
    by (simp add: DEFINITIONS_def)
  show ?thesis
    using check4_orphaned
            [of "JObj [(''definitions'', JObj [(''A'', JObj []), (''B'', JObj [])])]"
                "[(''A'', JObj []), (''B'', JObj [])]"
                "[(''A'', JObj [(''items'', JObj [(''$ref'', JStr ''#/definitions/B'')])])]"
                "{''B''}"] g
    unfolding o by simp
qed

subsection \<open>Runs that raise nothing\<close>

lemma after_okD:
  "after_ok after \<Longrightarrow> \<exists>after_items. py_get after DEFINITIONS (JObj []) = Inr (JObj after_items)
      \<and> list_all (\<lambda>nd. joinable_entry (snd nd)) after_items"
  by (auto simp: after_ok_def split: sum.splits json.splits)

lemma before_okD:
  "before_ok b \<Longrightarrow> \<exists>before_items. py_get b DEFINITIONS (JObj []) = Inr (JObj before_items)"
  by (auto simp: before_ok_def split: sum.splits json.splits)

lemma py_get_Inr_obj: "py_get j k d = Inr v \<Longrightarrow> \<exists>v'. py_get j k' d' = Inr v'"
  by (cases j) simp_all

lemma print_collapsed_ok:
  "list_all (\<lambda>nt. joinable (snd nt)) xs \<Longrightarrow>
   print_collapsed xs = (map (\<lambda>nt. CollapsedDef (fst nt) (snd nt)) xs, Inr ())"
  by (induction xs) (simp_all add: then_do_simps done_with_def)

lemma set_update_subset: "set (AList.update k v al) \<subseteq> insert (k, v) (set al)"
  by (induction al) auto

lemma reduced_step_joinable:
  assumes "joinable_entry (snd nd)" and "list_all (\<lambda>nt. joinable (snd nt)) rd"
  shows "list_all (\<lambda>nt. joinable (snd nt)) (reduced_step nd rd)"
proof (cases nd)
  case (Pair name defn)
  show ?thesis
  proof (cases defn)
    case (JObj d)
    show ?thesis
    proof (cases "map_of d REDUCED_KEY")
      case None
      with assms show ?thesis by (simp add: Pair JObj)
    next
      case (Some targets)
      with assms have "joinable targets" by (simp add: Pair JObj)
      with assms(2) set_update_subset [of name targets rd] show ?thesis
        by (auto simp: Pair JObj Some list_all_iff)
    qed
  qed (use assms in \<open>simp_all add: Pair\<close>)
qed

lemma fold_reduced_step_joinable:
  "list_all (\<lambda>nd. joinable_entry (snd nd)) items \<Longrightarrow> list_all (\<lambda>nt. joinable (snd nt)) rd \<Longrightarrow>
   list_all (\<lambda>nt. joinable (snd nt)) (fold reduced_step items rd)"
  by (induction items arbitrary: rd) (simp_all add: reduced_step_joinable)

lemma check2_ok:
  assumes "list_all (\<lambda>nd. joinable_entry (snd nd)) items"
  shows "snd (check2 (JObj items)) = Inr (items, reduced_defs_of items)"
proof -
  have "list_all (\<lambda>nt. joinable (snd nt)) (reduced_defs_of items)"
    using fold_reduced_step_joinable [OF assms, of "[]"] by (simp add: reduced_defs_of_def)
  then have "list_all (\<lambda>nt. joinable (snd nt)) (sort_key fst (reduced_defs_of items))"
    by (simp add: list_all_iff)
  then show ?thesis
    by (simp add: check2_def then_do_simps Let_def print_collapsed_ok done_with_def)
qed

lemma check1_ok:
  assumes "case supplied bp of
           None \<Rightarrow> True
         | Some path \<Rightarrow> (case fs path of Loaded before_doc \<Rightarrow> before_ok before_doc | _ \<Rightarrow> False)"
  shows "\<exists>bd errors1. snd (check1 fs bp n) = Inr (bd, errors1)
           \<and> (case bd of None \<Rightarrow> True | Some b \<Rightarrow> before_ok b)"
proof (cases "supplied bp")
  case None
  then show ?thesis by (simp add: check1_def then_do_simps done_with_def)
next
  case (Some path)
  with assms obtain b where b: "fs path = Loaded b" "before_ok b"
    by (auto split: load_result.splits)
  from before_okD [OF b(2)] obtain before_items
    where "py_get b DEFINITIONS (JObj []) = Inr (JObj before_items)" by blast
  with Some b show ?thesis
    by (simp add: check1_def json_load_def then_do_simps done_with_def)
qed

lemma check4_ok:
  assumes "case bd of None \<Rightarrow> True | Some b \<Rightarrow> before_ok b"
  shows "\<exists>errors4. snd (check4 bd items R) = Inr errors4"
proof (cases bd)
  case None
  then show ?thesis by (simp add: check4_def then_do_simps done_with_def)
next
  case (Some b)
  with assms have "before_ok b" by simp
  from before_okD [OF this] obtain before_items
    where "py_get b DEFINITIONS (JObj []) = Inr (JObj before_items)" by blast
  with Some show ?thesis by (simp add: check4_def then_do_simps emit_def)
qed

lemma run_checks_errors:
  assumes "after_ok after"
    and "case supplied bp of
           None \<Rightarrow> True
         | Some path \<Rightarrow> (case fs path of Loaded before_doc \<Rightarrow> before_ok before_doc | _ \<Rightarrow> False)"
  shows "\<exists>items ann bd errors1 errors4.
           py_get after DEFINITIONS (JObj []) = Inr (JObj items)
         \<and> py_get after COLLAPSED_KEY (JInt 0) = Inr ann
         \<and> snd (check1 fs bp (length items)) = Inr (bd, errors1)
         \<and> snd (check4 bd items (all_refs_of items {})) = Inr errors4
         \<and> snd (run_checks fs p bp after)
             = Inr (errors1 @ snd (check3 items (all_refs_of items {})) @ errors4
                    @ snd (check5 ann (length (reduced_defs_of items))))"
proof -
  from after_okD [OF assms(1)] obtain items
    where g: "py_get after DEFINITIONS (JObj []) = Inr (JObj items)"
      and j: "list_all (\<lambda>nd. joinable_entry (snd nd)) items" by blast
  from py_get_Inr_obj [OF g] obtain ann
    where a: "py_get after COLLAPSED_KEY (JInt 0) = Inr ann" by blast
  from check1_ok [OF assms(2)] obtain bd errors1
    where c1: "snd (check1 fs bp (length items)) = Inr (bd, errors1)"
      and bd: "case bd of None \<Rightarrow> True | Some b \<Rightarrow> before_ok b" by blast
  from check4_ok [OF bd] obtain errors4
    where c4: "snd (check4 bd items (all_refs_of items {})) = Inr errors4" by blast
  have "snd (run_checks fs p bp after)
             = Inr (errors1 @ snd (check3 items (all_refs_of items {})) @ errors4
                    @ snd (check5 ann (length (reduced_defs_of items))))"
    by (simp add: run_checks_def g a then_do_def lift_def print_def emit_def done_with_def
        c1 check2_ok [OF j] c4 Let_def)
  with g a c1 c4 show ?thesis by blast
qed

lemma run_checks_ok:
  assumes "after_ok after"
    and "case supplied bp of
           None \<Rightarrow> True
         | Some path \<Rightarrow> (case fs path of Loaded before_doc \<Rightarrow> before_ok before_doc | _ \<Rightarrow> False)"
  shows "\<exists>errors. snd (run_checks fs p bp after) = Inr errors"
  using run_checks_errors [OF assms, of p] by blast

lemma main_of_errors:
  assumes "2 \<le> length argv" and "fs (argv ! 1) = Loaded after"
    and "snd (run_checks fs (argv ! 1) (before_path_of argv) after) = Inr errors"
  shows "ended (main fs argv) = (if errors = [] then Returned else SysExit 1)"
    and "set (fst (summary errors)) \<subseteq> set (printed (main fs argv))"
  using assms by (simp_all add: main_def json_load_def then_do_simps Let_def summary_def)

subsection \<open>Runs that raise\<close>

text \<open>
  On loaded documents that are not fit the run ends on an exception: in Check 2 when the
  after document is not fit (its definitions mapping is a dict, with distinct keys), in
  Check 1 or in Check 4 when the before document is not.
\<close>

lemma snd_then_do:
  "snd (then_do m f) = (case snd m of Inl e \<Rightarrow> Inl e | Inr x \<Rightarrow> snd (f x))"
  by (simp add: then_do_def split: sum.splits)

lemma reduced_step_entry:
  "reduced_step nd rd =
     (case reduced_entry nd of None \<Rightarrow> rd | Some nt \<Rightarrow> AList.update (fst nt) (snd nt) rd)"
  by (cases nd; cases "snd nd") (auto split: option.splits)

lemma reduced_entry_fst: "reduced_entry nd = Some nt \<Longrightarrow> fst nt = fst nd"
  by (cases nd; cases "snd nd") auto

lemma fold_reduced_step_distinct:
  "distinct (map fst items) \<Longrightarrow> fst ` set rd \<inter> fst ` set items = {} \<Longrightarrow>
   fold reduced_step items rd = rd @ List.map_filter reduced_entry items"
proof (induction items arbitrary: rd)
  case Nil
  show ?case by (simp add: List.map_filter_simps)
next
  case (Cons nd items)
  have new: "fst nd \<notin> fst ` set rd" using Cons.prems(2) by auto
  have d: "distinct (map fst items)" and nd: "fst nd \<notin> fst ` set items"
    and rd: "fst ` set rd \<inter> fst ` set items = {}"
    using Cons.prems by auto
  show ?case
  proof (cases "reduced_entry nd")
    case None
    then have "reduced_step nd rd = rd" by (simp add: reduced_step_entry)
    with Cons.IH [OF d rd] None show ?thesis by (simp add: List.map_filter_simps)
  next
    case (Some nt)
    then have k: "fst nt = fst nd" by (rule reduced_entry_fst)
    then have s: "reduced_step nd rd = rd @ [nt]"
      using Some new update_fresh [of "fst nt" rd "snd nt"]
      by (cases nt) (simp add: reduced_step_entry)
    have "fst ` set (rd @ [nt]) \<inter> fst ` set items = {}"
      using rd nd k by auto
    from Cons.IH [OF d this] s Some show ?thesis by (simp add: List.map_filter_simps)
  qed
qed

lemma reduced_defs_of_distinct:
  "distinct (map fst items) \<Longrightarrow> reduced_defs_of items = List.map_filter reduced_entry items"
  using fold_reduced_step_distinct [of items "[]"] by (simp add: reduced_defs_of_def)

lemma print_collapsed_raises:
  "\<not> list_all (\<lambda>nt. joinable (snd nt)) xs \<Longrightarrow> snd (print_collapsed xs) = Inl TypeError"
  by (induction xs) (auto simp: snd_then_do lift_def print_def)

lemma joinable_entry_reduced:
  "joinable_entry (snd nd) \<longleftrightarrow> (case reduced_entry nd of None \<Rightarrow> True | Some nt \<Rightarrow> joinable (snd nt))"
  by (cases nd; cases "snd nd") (auto split: option.splits)

lemma check2_raises:
  assumes "distinct (map fst items)" and "\<not> list_all (\<lambda>nd. joinable_entry (snd nd)) items"
  shows "isl (snd (check2 (JObj items)))"
proof -
  from assms(2) obtain nd where nd: "nd \<in> set items" "\<not> joinable_entry (snd nd)"
    by (auto simp: list_all_iff)
  then obtain nt where nt: "reduced_entry nd = Some nt" "\<not> joinable (snd nt)"
    by (auto simp: joinable_entry_reduced split: option.splits)
  with nd(1) have "nt \<in> set (List.map_filter reduced_entry items)"
    by (force simp: List.map_filter_def)
  then have "nt \<in> set (sort_key fst (reduced_defs_of items))"
    by (simp add: reduced_defs_of_distinct [OF assms(1)])
  with nt(2) have "\<not> list_all (\<lambda>nt. joinable (snd nt)) (sort_key fst (reduced_defs_of items))"
    by (auto simp: list_all_iff)
  from print_collapsed_raises [OF this] show ?thesis
    by (simp add: check2_def snd_then_do lift_def print_def Let_def)
qed

lemma check2_not_object: "\<not> is_container d \<or> (\<exists>xs. d = JArr xs) \<Longrightarrow> isl (snd (check2 d))"
  by (cases d) (auto simp: check2_def snd_then_do lift_def)

lemma run_checks_raises_after:
  assumes "\<not> after_ok after"
    and "\<And>items. py_get after DEFINITIONS (JObj []) = Inr (JObj items) \<Longrightarrow> distinct (map fst items)"
  shows "isl (snd (run_checks fs p bp after))"
proof (cases "py_get after DEFINITIONS (JObj [])")
  case (Inl e)
  then show ?thesis by (simp add: run_checks_def snd_then_do lift_def)
next
  case (Inr d)
  have c2: "isl (snd (check2 d))"
  proof (cases d)
    case (JObj items)
    with assms(1) Inr have "\<not> list_all (\<lambda>nd. joinable_entry (snd nd)) items"
      by (simp add: after_ok_def)
    with check2_raises [OF assms(2)] Inr JObj show ?thesis by simp
  qed (simp_all add: check2_not_object)
  then show ?thesis
    by (auto simp: run_checks_def snd_then_do lift_def print_def Inr Let_def split: sum.splits)
qed

lemma run_checks_raises_before:
  assumes "after_ok after" and "supplied bp = Some path"
    and "case fs path of Loaded b \<Rightarrow> \<not> before_ok b | _ \<Rightarrow> True"
  shows "isl (snd (run_checks fs p bp after))"
proof -
  from after_okD [OF assms(1)] obtain items
    where g: "py_get after DEFINITIONS (JObj []) = Inr (JObj items)"
      and j: "list_all (\<lambda>nd. joinable_entry (snd nd)) items" by blast
  have "isl (snd (check1 fs bp (length items)))
        \<or> (\<exists>b errors1. snd (check1 fs bp (length items)) = Inr (Some b, errors1)
              \<and> isl (snd (check4 (Some b) items (all_refs_of items {}))))"
  proof (cases "fs path")
    case (Loaded b)
    with assms(3) have nb: "\<not> before_ok b" by simp
    show ?thesis
    proof (cases "py_get b DEFINITIONS (JObj [])")
      case (Inl e)
      with Loaded assms(2) show ?thesis
        by (simp add: check1_def json_load_def snd_then_do lift_def)
    next
      case (Inr bd)
      with nb have nobj: "\<And>bi. bd \<noteq> JObj bi" by (auto simp: before_ok_def)
      show ?thesis
      proof (cases "py_len bd")
        case (Inl e)
        with Inr Loaded assms(2) show ?thesis
          by (simp add: check1_def json_load_def snd_then_do lift_def)
      next
        case len: (Inr n)
        from nobj have "py_keys bd = Inl AttributeError" by (cases bd) auto
        then have "isl (snd (check4 (Some b) items (all_refs_of items {})))"
          by (simp add: check4_def Inr snd_then_do lift_def)
        moreover have "\<exists>errors1. snd (check1 fs bp (length items)) = Inr (Some b, errors1)"
          using Inr Loaded len assms(2)
          by (simp add: check1_def json_load_def snd_then_do lift_def emit_def done_with_def)
        ultimately show ?thesis by blast
      qed
    qed
  qed (use assms(2) in \<open>simp_all add: check1_def json_load_def snd_then_do lift_def\<close>)
  then show ?thesis
    by (auto simp: run_checks_def snd_then_do lift_def print_def emit_def g check2_ok [OF j]
        Let_def split: sum.splits)
qed

lemma main_raises:
  assumes "2 \<le> length argv" and "fs (argv ! 1) = Loaded after" and "\<not> inputs_ok fs argv"
    and "\<And>items. py_get after DEFINITIONS (JObj []) = Inr (JObj items) \<Longrightarrow> distinct (map fst items)"
  shows "\<exists>e. ended (main fs argv) = Uncaught e"
proof -
  have "isl (snd (run_checks fs (argv ! 1) (before_path_of argv) after))"
  proof (cases "after_ok after")
    case False
    from run_checks_raises_after [OF False assms(4)] show ?thesis by simp
  next
    case True
    with assms(1-3) obtain path where p: "supplied (before_path_of argv) = Some path"
      "case fs path of Loaded b \<Rightarrow> \<not> before_ok b | _ \<Rightarrow> True"
      by (auto simp: inputs_ok_def split: option.splits load_result.splits)
    from run_checks_raises_before
           [of after "before_path_of argv" path fs "argv ! 1", OF True p] show ?thesis .
  qed
  then obtain e where "snd (run_checks fs (argv ! 1) (before_path_of argv) after) = Inl e"
    by (auto simp: isl_def)
  with assms(1,2) have "ended (main fs argv) = Uncaught e"
    by (simp add: main_def json_load_def then_do_simps Let_def)
  then show ?thesis ..
qed

section \<open>Properties of the whole run\<close>

text \<open>
  Claim C1, as amended. When the inputs of a run are fit (the after document, and the
  before document when one is supplied, load and are objects whose definitions mappings
  are objects, with joinable \<^verbatim>\<open>x-netex-reduced\<close> values), the five checks run to their end
  and leave an error list; the process exits with status 0 exactly when that list is
  empty, printing PASS; when the list is not empty it prints FAIL with the number of errors
  and every error, and exits with status 1.
\<close>

theorem main_exit_status:
  assumes "inputs_ok fs argv" and "fs (argv ! 1) = Loaded after"
  shows "\<exists>errors.
           snd (run_checks fs (argv ! 1) (before_path_of argv) after) = Inr errors
         \<and> (exit_status (ended (main fs argv)) = 0 \<longleftrightarrow> errors = [])
         \<and> (errors \<noteq> [] \<longrightarrow>
              exit_status (ended (main fs argv)) = 1
              \<and> Fail (length errors) \<in> set (printed (main fs argv))
              \<and> list_all (\<lambda>e. FailDetail e \<in> set (printed (main fs argv))) errors)
         \<and> (errors = [] \<longrightarrow> Pass \<in> set (printed (main fs argv)))"
proof -
  from assms have len: "2 \<le> length argv" and ok: "after_ok after"
    and b: "case supplied (before_path_of argv) of
           None \<Rightarrow> True
         | Some path \<Rightarrow> (case fs path of Loaded before_doc \<Rightarrow> before_ok before_doc | _ \<Rightarrow> False)"
    by (simp_all add: inputs_ok_def)
  from run_checks_ok [OF ok b] obtain errors
    where e: "snd (run_checks fs (argv ! 1) (before_path_of argv) after) = Inr errors" by blast
  note m = main_of_errors [OF len assms(2) e]
  have f1: "exit_status (ended (main fs argv)) = 0 \<longleftrightarrow> errors = []"
    by (simp add: m(1))
  have f2: "exit_status (ended (main fs argv)) = 1" if "errors \<noteq> []"
    using that by (simp add: m(1))
  have f3: "Fail (length errors) \<in> set (printed (main fs argv))" if "errors \<noteq> []"
    using that m(2) by (auto simp: summary_def)
  have f4: "list_all (\<lambda>e. FailDetail e \<in> set (printed (main fs argv))) errors"
    if "errors \<noteq> []"
    using that m(2) by (auto simp: summary_def list_all_iff)
  have f5: "Pass \<in> set (printed (main fs argv))" if "errors = []"
    using that m(2) by (auto simp: summary_def)
  show ?thesis
  proof (intro exI [of _ errors] conjI impI)
    show "snd (run_checks fs (argv ! 1) (before_path_of argv) after) = Inr errors" by (rule e)
    show "exit_status (ended (main fs argv)) = 0 \<longleftrightarrow> errors = []" by (rule f1)
    show "exit_status (ended (main fs argv)) = 1" if "errors \<noteq> []" by (rule f2 [OF that])
    show "Fail (length errors) \<in> set (printed (main fs argv))" if "errors \<noteq> []"
      by (rule f3 [OF that])
    show "list_all (\<lambda>e. FailDetail e \<in> set (printed (main fs argv))) errors"
      if "errors \<noteq> []" by (rule f4 [OF that])
    show "Pass \<in> set (printed (main fs argv))" if "errors = []" by (rule f5 [OF that])
  qed
qed

theorem main_exit_status_witness:
  "inputs_ok (\<lambda>p. Loaded (JObj [(''definitions'',
                  JObj [(''X'', JObj []), (''Y'', JObj [(''x-netex-reduced'', JArr [JStr ''Z''])])]),
                (''x-netex-collapsed'', JInt 1)]))
             [''test-collapse.py'', ''after.json'']
   \<and> exit_status (ended (main (\<lambda>p. Loaded (JObj [(''definitions'',
                  JObj [(''X'', JObj []), (''Y'', JObj [(''x-netex-reduced'', JArr [JStr ''Z''])])]),
                (''x-netex-collapsed'', JInt 1)]))
             [''test-collapse.py'', ''after.json''])) = 0"
proof -
  let ?after = "JObj [(''definitions'',
                  JObj [(''X'', JObj []), (''Y'', JObj [(''x-netex-reduced'', JArr [JStr ''Z''])])]),
                (''x-netex-collapsed'', JInt 1)]"
  let ?fs = "\<lambda>p::string. Loaded ?after"
  let ?argv = "[''test-collapse.py'', ''after.json'']"
  have ok: "inputs_ok ?fs ?argv"
    by (simp add: inputs_ok_def after_ok_def before_path_of_def DEFINITIONS_def REDUCED_KEY_def)
  have l: "?fs (?argv ! 1) = Loaded ?after" by simp
  have r: "snd (run_checks ?fs (?argv ! 1) (before_path_of ?argv) ?after) = Inr []"
    by (simp add: run_checks_def check1_def check2_def check3_def check4_def check5_def
      then_do_def lift_def print_def emit_def done_with_def Let_def before_path_of_def
      DEFINITIONS_def COLLAPSED_KEY_def REDUCED_KEY_def reduced_defs_of_def
      broken_of_def REF_KEY_def)
  from main_exit_status [OF ok l] r have "exit_status (ended (main ?fs ?argv)) = 0"
    by auto
  with ok show ?thesis by simp
qed

text \<open>
  Claim C1 as stated fails on loaded documents the script cannot walk. An after document
  whose only definition carries the number 5 under \<^verbatim>\<open>x-netex-reduced\<close> has no broken
  reference and a matching collapse count, so no check records an error for it; the join
  of line 74 raises a TypeError after three lines of the report, and the process exits
  with status 1 without a FAIL line. An after document that is an array raises at line 48,
  before anything is printed.
\<close>

theorem main_exit_status_counterexample:
  "printed (main (\<lambda>p. Loaded (JObj [(''definitions'',
                                     JObj [(''A'', JObj [(''x-netex-reduced'', JInt 5)])]),
                                   (''x-netex-collapsed'', JInt 1)]))
             [''test-collapse.py'', ''after.json''])
     = [Title ''after.json'', DefCountOnly 1, CollapsedHeader 1]
   \<and> ended (main (\<lambda>p. Loaded (JObj [(''definitions'',
                                     JObj [(''A'', JObj [(''x-netex-reduced'', JInt 5)])]),
                                   (''x-netex-collapsed'', JInt 1)]))
             [''test-collapse.py'', ''after.json''])
     = Uncaught TypeError
   \<and> exit_status (ended (main (\<lambda>p. Loaded (JObj [(''definitions'',
                                     JObj [(''A'', JObj [(''x-netex-reduced'', JInt 5)])]),
                                   (''x-netex-collapsed'', JInt 1)]))
             [''test-collapse.py'', ''after.json''])) = 1
   \<and> snd (check3 [(''A'', JObj [(''x-netex-reduced'', JInt 5)])]
              (all_refs_of [(''A'', JObj [(''x-netex-reduced'', JInt 5)])] {})) = []
   \<and> snd (check5 (JInt 1)
              (length (reduced_defs_of [(''A'', JObj [(''x-netex-reduced'', JInt 5)])]))) = []
   \<and> printed (main (\<lambda>p. Loaded (JArr [])) [''test-collapse.py'', ''after.json'']) = []
   \<and> exit_status (ended (main (\<lambda>p. Loaded (JArr [])) [''test-collapse.py'', ''after.json'']))
       = 1"
  by (simp add: main_def json_load_def run_checks_def check1_def check2_def check3_def
      check5_def then_do_simps then_do_def lift_def print_def emit_def done_with_def Let_def
      before_path_of_def basename_def DEFINITIONS_def COLLAPSED_KEY_def REDUCED_KEY_def
      reduced_defs_of_def broken_of_def REF_KEY_def)

text \<open>
  Claim C8, as amended. With no after argument the script prints the usage message and
  exits with status 1 before any check. With an after path whose file cannot be read or
  does not parse, the process ends on the uncaught exception with status 1, before any
  check and before the title: nothing is printed on standard output, neither a usage
  message nor any part of the report.
\<close>

theorem main_fatal:
  "(length argv < 2 \<longrightarrow>
        main fs argv = \<lparr>printed = [Usage], ended = SysExit 1\<rparr>
        \<and> exit_status (ended (main fs argv)) = 1)
   \<and> (2 \<le> length argv \<and> fs (argv ! 1) = Unreadable \<longrightarrow>
        main fs argv = \<lparr>printed = [], ended = Uncaught OSError\<rparr>
        \<and> exit_status (ended (main fs argv)) = 1)
   \<and> (2 \<le> length argv \<and> fs (argv ! 1) = Invalid \<longrightarrow>
        main fs argv = \<lparr>printed = [], ended = Uncaught JSONDecodeError\<rparr>
        \<and> exit_status (ended (main fs argv)) = 1)"
  by (simp add: main_def json_load_def then_do_simps Let_def)

theorem main_fatal_witness:
  "main (\<lambda>p. Unreadable) [''test-collapse.py''] = \<lparr>printed = [Usage], ended = SysExit 1\<rparr>
   \<and> main (\<lambda>p. Invalid) [''test-collapse.py'', ''after.json'']
       = \<lparr>printed = [], ended = Uncaught JSONDecodeError\<rparr>
   \<and> exit_status (ended (main (\<lambda>p. Unreadable) [''test-collapse.py'', ''after.json''])) = 1"
  using main_fatal [of "[''test-collapse.py'']" "\<lambda>p. Unreadable"]
    main_fatal [of "[''test-collapse.py'', ''after.json'']" "\<lambda>p. Invalid"]
    main_fatal [of "[''test-collapse.py'', ''after.json'']" "\<lambda>p. Unreadable"]
  by simp

text \<open>
  Claim C8 as stated fails: for an unreadable or an invalid after document no usage
  message is printed.
\<close>

theorem main_fatal_counterexample:
  "Usage \<notin> set (printed (main (\<lambda>p. Unreadable) [''test-collapse.py'', ''after.json'']))
   \<and> Usage \<notin> set (printed (main (\<lambda>p. Invalid) [''test-collapse.py'', ''after.json'']))"
  by (simp add: main_def json_load_def then_do_simps Let_def)

text \<open>The files a run reads are the after path and, when supplied, the before path.\<close>

lemma check1_same_files:
  "(\<And>path. supplied before_path = Some path \<Longrightarrow> fs1 path = fs2 path) \<Longrightarrow>
   check1 fs1 before_path n = check1 fs2 before_path n"
  by (cases "supplied before_path") (simp_all add: check1_def json_load_def)

lemma supplied_before_path_of:
  "supplied (before_path_of argv) = Some path \<Longrightarrow> 2 < length argv \<and> path = argv ! 2"
  by (auto simp: before_path_of_def split: if_splits)

text \<open>
  Claim C9. The printed report and the end of the process are a function of the arguments
  and of the documents at the after path and at the before path: two runs with the same
  arguments on file systems that agree on these two files have the same outcome, whatever
  else differs. The sets of broken and orphaned names are printed in sorted order, so the
  order in which a set is held plays no part.
\<close>

theorem main_deterministic:
  assumes "fs1 (argv ! 1) = fs2 (argv ! 1)"
    and "2 < length argv \<longrightarrow> fs1 (argv ! 2) = fs2 (argv ! 2)"
  shows "main fs1 argv = main fs2 argv
     \<and> printed (main fs1 argv) = printed (main fs2 argv)
     \<and> exit_status (ended (main fs1 argv)) = exit_status (ended (main fs2 argv))"
proof -
  have c1: "check1 fs1 (before_path_of argv) n = check1 fs2 (before_path_of argv) n" for n
    using assms(2) by (intro check1_same_files) (auto dest: supplied_before_path_of)
  have "run_checks fs1 p (before_path_of argv) a = run_checks fs2 p (before_path_of argv) a" for p a
    unfolding run_checks_def c1 ..
  then have "run_checks fs1 p (before_path_of argv) = run_checks fs2 p (before_path_of argv)" for p
    by (intro ext)
  then have "main fs1 argv = main fs2 argv"
    using assms(1) by (simp add: main_def json_load_def)
  then show ?thesis by simp
qed

theorem main_deterministic_witness:
  "main (\<lambda>p. if p = ''after.json'' then Loaded (JObj []) else Unreadable)
        [''test-collapse.py'', ''after.json'']
   = main (\<lambda>p. if p = ''after.json'' then Loaded (JObj []) else Invalid)
        [''test-collapse.py'', ''after.json'']"
proof -
  from main_deterministic
         [of "\<lambda>p. if p = ''after.json'' then Loaded (JObj []) else Unreadable"
             "[''test-collapse.py'', ''after.json'']"
             "\<lambda>p. if p = ''after.json'' then Loaded (JObj []) else Invalid"]
  show ?thesis by simp
qed

text \<open>
  Claim C10. The run reads the after document only through its \<^verbatim>\<open>definitions\<close> value and its
  \<^verbatim>\<open>x-netex-collapsed\<close> value: two after documents that agree on both give the same report
  and the same errors, so a \<^verbatim>\<open>$ref\<close> at top level or under another top-level key changes
  nothing. A name is in the reference-target set exactly when the collector finds it in
  the value of some definition entry; a name that is not there is neither in the broken
  set nor in the orphan set, and no error is recorded for it, also when it is absent from
  the definitions mapping.
\<close>

theorem refs_outside_definitions:
  "(py_get after1 DEFINITIONS (JObj []) = py_get after2 DEFINITIONS (JObj [])
      \<and> py_get after1 COLLAPSED_KEY (JInt 0) = py_get after2 COLLAPSED_KEY (JInt 0)
     \<longrightarrow> run_checks fs p bp after1 = run_checks fs p bp after2)
   \<and> (N \<in> all_refs_of after_items {} \<longleftrightarrow> (\<exists>nd \<in> set after_items. N \<in> collect_refs (snd nd) {}))
   \<and> (N \<notin> all_refs_of after_items {} \<longrightarrow>
        N \<notin> broken_of after_items (all_refs_of after_items {})
      \<and> N \<notin> orphaned_of before_keys after_items (all_refs_of after_items {})
      \<and> BrokenRef N \<notin> set (snd (check3 after_items (all_refs_of after_items {})))
      \<and> OrphanedTarget N
            \<notin> set (snd (orphan_report before_keys after_items (all_refs_of after_items {}))))"
proof -
  let ?R = "all_refs_of after_items {}"
  have a: "run_checks fs p bp after1 = run_checks fs p bp after2"
    if "py_get after1 DEFINITIONS (JObj []) = py_get after2 DEFINITIONS (JObj [])"
      and "py_get after1 COLLAPSED_KEY (JInt 0) = py_get after2 COLLAPSED_KEY (JInt 0)"
    using that by (simp add: run_checks_def)
  have b: "N \<in> ?R \<longleftrightarrow> (\<exists>nd \<in> set after_items. N \<in> collect_refs (snd nd) {})"
    by (simp add: all_refs_of_acc)
  have fb: "finite (broken_of after_items ?R)"
    by (simp add: broken_of_def finite_all_refs_of)
  have fo: "finite (orphaned_of before_keys after_items ?R)"
    by (simp add: orphaned_of_def)
  have c: "N \<notin> broken_of after_items ?R" "N \<notin> orphaned_of before_keys after_items ?R"
    if "N \<notin> ?R"
    using that by (simp_all add: broken_of_def orphaned_of_def)
  have d: "BrokenRef N \<notin> set (snd (check3 after_items ?R))" if "N \<notin> ?R"
    using c(1) [OF that] fb by (auto simp: check3_def Let_def)
  have e: "OrphanedTarget N \<notin> set (snd (orphan_report before_keys after_items ?R))"
    if "N \<notin> ?R"
    using c(2) [OF that] fo by (auto simp: orphan_report_def Let_def)
  show ?thesis
  proof (intro conjI impI)
    show "run_checks fs p bp after1 = run_checks fs p bp after2"
      if "py_get after1 DEFINITIONS (JObj []) = py_get after2 DEFINITIONS (JObj [])
          \<and> py_get after1 COLLAPSED_KEY (JInt 0) = py_get after2 COLLAPSED_KEY (JInt 0)"
      using that a by blast
  qed (use b c d e in auto)
qed

theorem refs_outside_definitions_witness:
  "run_checks (\<lambda>p. Unreadable) ''after.json'' None
      (JObj [(''$ref'', JStr ''#/definitions/Gone''),
             (''properties'', JObj [(''stop'', JObj [(''$ref'', JStr ''#/definitions/Gone'')])]),
             (''definitions'', JObj [(''A'', JObj [])])])
   = run_checks (\<lambda>p. Unreadable) ''after.json'' None
      (JObj [(''definitions'', JObj [(''A'', JObj [])])])
   \<and> ''Gone'' \<notin> broken_of [(''A'', JObj [])] (all_refs_of [(''A'', JObj [])] {})
   \<and> ''Gone'' \<notin> orphaned_of [''Gone''] [(''A'', JObj [])] (all_refs_of [(''A'', JObj [])] {})"
proof -
  have g: "py_get (JObj [(''$ref'', JStr ''#/definitions/Gone''),
             (''properties'', JObj [(''stop'', JObj [(''$ref'', JStr ''#/definitions/Gone'')])]),
             (''definitions'', JObj [(''A'', JObj [])])]) DEFINITIONS (JObj [])
        = py_get (JObj [(''definitions'', JObj [(''A'', JObj [])])]) DEFINITIONS (JObj [])"
    "py_get (JObj [(''$ref'', JStr ''#/definitions/Gone''),
             (''properties'', JObj [(''stop'', JObj [(''$ref'', JStr ''#/definitions/Gone'')])]),
             (''definitions'', JObj [(''A'', JObj [])])]) COLLAPSED_KEY (JInt 0)
        = py_get (JObj [(''definitions'', JObj [(''A'', JObj [])])]) COLLAPSED_KEY (JInt 0)"
    by (simp_all add: DEFINITIONS_def COLLAPSED_KEY_def)
  have n: "''Gone'' \<notin> all_refs_of [(''A'', JObj [])] {}" by simp
  from refs_outside_definitions
         [of "JObj [(''$ref'', JStr ''#/definitions/Gone''),
             (''properties'', JObj [(''stop'', JObj [(''$ref'', JStr ''#/definitions/Gone'')])]),
             (''definitions'', JObj [(''A'', JObj [])])]"
             "JObj [(''definitions'', JObj [(''A'', JObj [])])]"
             "\<lambda>p. Unreadable" "''after.json''" None "''Gone''" "[(''A'', JObj [])]" "[''Gone'']"]
       g n
  show ?thesis by blast
qed

end
